theory Spec2Isabelle
  imports Main
begin

section \<open>OpenLayers objects\<close>

text \<open>
  The repository consists of two React components, both called \<open>OLMap\<close>, and the module
  \<open>OLMapContext.ts\<close>. The components drive an OpenLayers \<open>Map\<close> object: the basic
  component builds a map of its own inside its effect, the better one takes the map
  held by \<open>OLMapContext\<close>. A DOM node, a \<open>Map\<close> object and a component instance are
  each known by an identity.
\<close>

type_synonym elem = nat
type_synonym addr = nat
type_synonym inst = nat

datatype source = OSM

datatype layer = TileLayer source

record View =
  center :: "int \<times> int"
  zoom :: int

record MapOptions =
  opt_target :: "elem option"
  opt_layers :: "layer list"
  opt_view :: View

record Map_obj =
  target :: "elem option"
  layers :: "layer list"
  view :: View
  disposed :: bool

text \<open>
  What can be observed of a run: the renders, commits and removals of the framework and
  the calls made on the \<open>Map\<close> interface, in the order they happen.
\<close>

datatype entry =
    Rendered inst
  | Committed inst elem
  | Removed inst elem
  | NewMap addr "elem option"
  | SetTarget addr "elem option"
  | Dispose addr

record world =
  heap :: "Map_obj list"
  log :: "entry list"

definition empty_world :: world where
  "empty_world = \<lparr>heap = [], log = []\<rparr>"

definition put :: "entry \<Rightarrow> world \<Rightarrow> world" where
  "put x w = w\<lparr>log := log w @ [x]\<rparr>"

text \<open>
  Modelled from the spec: the OpenLayers library is a dependency and not part of the
  sources. A viewer has a centre, a zoom level, an ordered list of layers and a nullable
  attachment target (spec section 3); \<open>new Map(options)\<close> allocates a viewer with the
  given description and with the target of the options, absent when none is given;
  \<open>setTarget\<close> overwrites the target and nothing else (last write wins, spec section 7);
  \<open>dispose\<close> is the teardown of the library, which also clears the target.
  JavaScript's \<open>null\<close> and \<open>undefined\<close> targets are both \<open>None\<close>.
\<close>

definition new_Map :: "MapOptions \<Rightarrow> world \<Rightarrow> addr \<times> world" where
  "new_Map opts w =
     (length (heap w),
      \<lparr>heap = heap w @ [\<lparr>target = opt_target opts, layers = opt_layers opts,
                         view = opt_view opts, disposed = False\<rparr>],
       log = log w @ [NewMap (length (heap w)) (opt_target opts)]\<rparr>)"

definition setTarget :: "addr \<Rightarrow> elem option \<Rightarrow> world \<Rightarrow> world" where
  "setTarget a t w =
     \<lparr>heap = (if a < length (heap w) then (heap w)[a := (heap w ! a)\<lparr>target := t\<rparr>]
              else heap w),
      log = log w @ [SetTarget a t]\<rparr>"

definition dispose :: "addr \<Rightarrow> world \<Rightarrow> world" where
  "dispose a w =
     \<lparr>heap = (if a < length (heap w)
              then (heap w)[a := (heap w ! a)\<lparr>target := None, disposed := True\<rparr>]
              else heap w),
      log = log w @ [Dispose a]\<rparr>"

section \<open>The React hooks the components use\<close>

text \<open>
  Modelled from the spec: React is a dependency and not part of the sources. A context
  made by \<open>createContext\<close> holds its default value, and \<open>useContext\<close> gives the value of
  the nearest enclosing provider, or the default value when there is none. The list
  argument holds the values of the enclosing providers, innermost first.
\<close>

record Context =
  defaultValue :: addr

definition createContext :: "addr \<Rightarrow> Context" where
  "createContext v = \<lparr>defaultValue = v\<rparr>"

definition useContext :: "addr list \<Rightarrow> Context \<Rightarrow> addr" where
  "useContext provs c = (case provs of [] \<Rightarrow> defaultValue c | v # _ \<Rightarrow> v)"

text \<open>
  What a function component hands to React when it renders: the callback of its
  \<open>useEffect\<close> with the dependency array, and its markup. The callback closes over the
  ref object made by \<open>useRef(null)\<close> and reads \<open>mapRef.current\<close> when it runs, so it
  takes the content of the ref at that moment; it returns its cleanup function.
  A \<open>div\<close> of the markup records whether it carries \<open>ref={mapRef}\<close>, its \<open>id\<close> and its
  children.
\<close>

type_synonym cleanup = "world \<Rightarrow> world"

type_synonym effect = "elem option \<Rightarrow> world \<Rightarrow> cleanup \<times> world"

datatype jsx = Div bool "string option" "jsx list"

record rendered =
  effect_fn :: effect
  deps :: "nat list option"
  jsx_out :: jsx

section \<open>The sources\<close>

text \<open>
  \<open>OLMapContext.ts\<close>, lines 6 to 16: evaluating the module builds one map, with no
  \<open>target\<close> among its options, and makes it the default value of the context.
\<close>

definition OLMapContext_module :: "world \<Rightarrow> Context \<times> world" where
  "OLMapContext_module w =
     (let (m, w') = new_Map \<lparr>opt_target = None, opt_layers = [TileLayer OSM],
                             opt_view = \<lparr>center = (0, 0), zoom = 2\<rparr>\<rparr> w
      in (createContext m, w'))"

definition OLMapContext :: Context where
  "OLMapContext = fst (OLMapContext_module empty_world)"

text \<open>
  The component that shares the map (the better implementation): it takes the map from
  the context, and its effect sets the target to \<open>mapRef.current!\<close>. The non-null
  assertion is erased by the compiler, so whatever the ref holds is passed on. The
  cleanup sets the target to \<open>undefined\<close>. The dependency array is empty. The inner
  \<open>div\<close> carries the ref.
\<close>

definition OLMap_shared :: "addr list \<Rightarrow> rendered" where
  "OLMap_shared provs =
     (let olMap = useContext provs OLMapContext
      in \<lparr>effect_fn = (\<lambda>cur w. (setTarget olMap None, setTarget olMap cur w)),
          deps = Some [],
          jsx_out = Div False None [Div True (Some ''map'') []]\<rparr>)"

text \<open>
  The component that owns its map (the basic implementation, lines 22 to 46 of the second
  part of \<open>OLMapContext.ts\<close>): its effect builds the map with \<open>mapRef.current!\<close> as the
  target, and the cleanup sets the target of that map to \<open>undefined\<close>.
\<close>

definition OLMap_private :: rendered where
  "OLMap_private =
     \<lparr>effect_fn = (\<lambda>cur w.
        (let (olMap, w') = new_Map \<lparr>opt_target = cur, opt_layers = [TileLayer OSM],
                                    opt_view = \<lparr>center = (0, 0), zoom = 2\<rparr>\<rparr> w
         in (setTarget olMap None, w'))),
      deps = Some [],
      jsx_out = Div True (Some ''map'') []\<rparr>"

section \<open>The lifecycle of a component instance\<close>

text \<open>
  Modelled from the spec: the rendering engine of React is not part of the sources. It
  reports mounts and unmounts (spec sections 1 and 5). On a mount the component is
  rendered, its markup is committed, which fills the ref carried by a \<open>div\<close> with the new
  node, and only then the effect runs (README, The Basic Implementation: the hook runs
  code after the component renders). On a later render the effect runs again only when
  the dependency array differs from the one of the previous render, after the cleanup of
  the previous run. The unmount follows the documentation of \<open>useEffect\<close>, the hook both
  components use: React first removes the component from the DOM, which takes the node
  away, and runs the cleanup of the effect after that. React mounts an instance that is
  not mounted and renders again or unmounts one that is: any other event has no
  successor state.
\<close>

record fiber =
  ref_current :: "elem option"
  destroy :: cleanup
  hook_deps :: "nat list option"
  node :: elem

record rt =
  ol :: world
  fibers :: "inst \<Rightarrow> fiber option"

datatype event = Mount inst elem | Rerender inst | Unmount inst

fun binds_ref :: "jsx \<Rightarrow> bool" where
  "binds_ref (Div r i cs) = (r \<or> list_ex binds_ref cs)"

definition deps_changed :: "nat list option \<Rightarrow> nat list option \<Rightarrow> bool" where
  "deps_changed old new = (case (old, new) of (Some a, Some b) \<Rightarrow> a \<noteq> b | _ \<Rightarrow> True)"

fun step :: "rendered \<Rightarrow> event \<Rightarrow> rt \<Rightarrow> rt option" where
  "step C (Mount i e) s =
     (case fibers s i of
        Some f \<Rightarrow> None
      | None \<Rightarrow>
          (let w1 = put (Rendered i) (ol s);
               cur = (if binds_ref (jsx_out C) then Some e else None);
               w2 = put (Committed i e) w1;
               (d, w3) = effect_fn C cur w2
           in Some \<lparr>ol = w3,
                    fibers = (fibers s)(i \<mapsto> \<lparr>ref_current = cur, destroy = d,
                                                hook_deps = deps C, node = e\<rparr>)\<rparr>))"
| "step C (Rerender i) s =
     (case fibers s i of
        None \<Rightarrow> None
      | Some f \<Rightarrow>
          (let w1 = put (Rendered i) (ol s)
           in if deps_changed (hook_deps f) (deps C)
              then (let w2 = destroy f w1;
                        (d, w3) = effect_fn C (ref_current f) w2
                    in Some \<lparr>ol = w3,
                             fibers = (fibers s)(i \<mapsto> f\<lparr>destroy := d, hook_deps := deps C\<rparr>)\<rparr>)
              else Some (s\<lparr>ol := w1\<rparr>)))"
| "step C (Unmount i) s =
     (case fibers s i of
        None \<Rightarrow> None
      | Some f \<Rightarrow>
          (let w1 = put (Removed i (node f)) (ol s);
               w2 = destroy f w1
           in Some \<lparr>ol = w2, fibers = (fibers s)(i := None)\<rparr>))"

fun run :: "rendered \<Rightarrow> event list \<Rightarrow> rt \<Rightarrow> rt option" where
  "run C [] s = Some s"
| "run C (x # xs) s = (case step C x s of None \<Rightarrow> None | Some s' \<Rightarrow> run C xs s')"

text \<open>
  The two ways of owning the viewer. The application that shares the map has evaluated
  \<open>OLMapContext.ts\<close> before anything is mounted and renders no provider (README, The
  Better Implementation); the one whose component owns its map starts with no map.
\<close>

datatype mode = Shared | Private

fun component :: "mode \<Rightarrow> rendered" where
  "component Shared = OLMap_shared []"
| "component Private = OLMap_private"

fun boot :: "mode \<Rightarrow> rt" where
  "boot Shared = \<lparr>ol = snd (OLMapContext_module empty_world), fibers = Map.empty\<rparr>"
| "boot Private = \<lparr>ol = empty_world, fibers = Map.empty\<rparr>"

section \<open>Reading the log\<close>

text \<open>
  The node an entry attaches a viewer to, if it attaches one: a map built with a target
  and a \<open>setTarget\<close> with a node both do. A detach is a \<open>setTarget\<close> with no node.
\<close>

fun attach_of :: "entry \<Rightarrow> elem option" where
  "attach_of (NewMap a (Some e)) = Some e"
| "attach_of (SetTarget a (Some e)) = Some e"
| "attach_of x = None"

definition is_attach :: "entry \<Rightarrow> bool" where
  "is_attach x = (attach_of x \<noteq> None)"

fun is_detach :: "entry \<Rightarrow> bool" where
  "is_detach (SetTarget a None) = True"
| "is_detach x = False"

fun is_construct :: "entry \<Rightarrow> bool" where
  "is_construct (NewMap a t) = True"
| "is_construct x = False"

fun is_teardown :: "entry \<Rightarrow> bool" where
  "is_teardown (Dispose a) = True"
| "is_teardown x = False"

fun viewer_of :: "entry \<Rightarrow> addr option" where
  "viewer_of (NewMap a t) = Some a"
| "viewer_of (SetTarget a t) = Some a"
| "viewer_of (Dispose a) = Some a"
| "viewer_of x = None"

fun is_Mount :: "event \<Rightarrow> bool" where
  "is_Mount (Mount i e) = True"
| "is_Mount x = False"

fun is_Unmount :: "event \<Rightarrow> bool" where
  "is_Unmount (Unmount i) = True"
| "is_Unmount x = False"

text \<open>
  A log attaches only to committed surfaces when, read from the left, every attach names a
  node that has been committed and not yet removed. The first argument holds the nodes
  that are committed at the start.
\<close>

fun attach_after_commit :: "elem list \<Rightarrow> entry list \<Rightarrow> bool" where
  "attach_after_commit live [] = True"
| "attach_after_commit live (Committed i e # l) = attach_after_commit (e # live) l"
| "attach_after_commit live (Removed i e # l) = attach_after_commit (remove1 e live) l"
| "attach_after_commit live (x # l) =
     ((case attach_of x of None \<Rightarrow> True | Some e \<Rightarrow> e \<in> set live) \<and>
      attach_after_commit live l)"

text \<open>
  A log detaches before the removal when, read from the left, no node is removed while
  a viewer is targeted at it. The first argument holds the viewers that have a target at
  the start, each with its target.
\<close>

definition retarget :: "addr \<Rightarrow> elem option \<Rightarrow> (addr \<times> elem) list \<Rightarrow> (addr \<times> elem) list" where
  "retarget a t att =
     (case t of
        None \<Rightarrow> filter (\<lambda>p. fst p \<noteq> a) att
      | Some e \<Rightarrow> (a, e) # filter (\<lambda>p. fst p \<noteq> a) att)"

fun detach_before_removal :: "(addr \<times> elem) list \<Rightarrow> entry list \<Rightarrow> bool" where
  "detach_before_removal att [] = True"
| "detach_before_removal att (NewMap a t # l) = detach_before_removal (retarget a t att) l"
| "detach_before_removal att (SetTarget a t # l) = detach_before_removal (retarget a t att) l"
| "detach_before_removal att (Dispose a # l) = detach_before_removal (retarget a None att) l"
| "detach_before_removal att (Removed i e # l) =
     (e \<notin> set (map snd att) \<and> detach_before_removal att l)"
| "detach_before_removal att (x # l) = detach_before_removal att l"

fun live_after :: "elem list \<Rightarrow> entry list \<Rightarrow> elem list" where
  "live_after live [] = live"
| "live_after live (Committed i e # l) = live_after (e # live) l"
| "live_after live (Removed i e # l) = live_after (remove1 e live) l"
| "live_after live (x # l) = live_after live l"

section \<open>What the proofs keep track of\<close>

text \<open>
  The viewer an instance mounted in state \<open>s\<close> works on, and what its effect does to the
  world: the shared component retargets the map of the context, the private one builds
  a map.
\<close>

definition viewer :: "mode \<Rightarrow> rt \<Rightarrow> addr" where
  "viewer m s = (case m of Shared \<Rightarrow> 0 | Private \<Rightarrow> length (heap (ol s)))"

definition attach :: "mode \<Rightarrow> elem \<Rightarrow> world \<Rightarrow> world" where
  "attach m e w =
     (case m of
        Shared \<Rightarrow> setTarget 0 (Some e) w
      | Private \<Rightarrow> snd (new_Map \<lparr>opt_target = Some e, opt_layers = [TileLayer OSM],
                                   opt_view = \<lparr>center = (0, 0), zoom = 2\<rparr>\<rparr> w))"

text \<open>
  The invariant of every reachable state: each mounted instance remembers an empty
  dependency array, its ref holds its node, and its cleanup clears the target of a
  viewer that exists, the map of the context in the shared mode, where it is the only
  viewer.
\<close>

definition tidy :: "mode \<Rightarrow> rt \<Rightarrow> bool" where
  "tidy m s \<longleftrightarrow>
     (\<forall>i f. fibers s i = Some f \<longrightarrow>
        hook_deps f = Some [] \<and> ref_current f = Some (node f) \<and>
        (\<exists>a. a < length (heap (ol s)) \<and> (m = Shared \<longrightarrow> a = 0) \<and>
             destroy f = setTarget a None)) \<and>
     (m = Shared \<longrightarrow> length (heap (ol s)) = 1)"

text \<open>
  A store keeps the description of another when it holds at least the same viewers and
  none of them has changed in anything but its target.
\<close>

definition keeps :: "Map_obj list \<Rightarrow> Map_obj list \<Rightarrow> bool" where
  "keeps h h' \<longleftrightarrow>
     length h \<le> length h' \<and>
     (\<forall>a < length h. layers (h' ! a) = layers (h ! a) \<and> view (h' ! a) = view (h ! a) \<and>
        disposed (h' ! a) = disposed (h ! a))"

section \<open>The module and the components, evaluated\<close>

lemma OLMapContext_module_empty:
  "OLMapContext_module empty_world =
     (\<lparr>defaultValue = 0\<rparr>,
      \<lparr>heap = [\<lparr>target = None, layers = [TileLayer OSM],
                 view = \<lparr>center = (0, 0), zoom = 2\<rparr>, disposed = False\<rparr>],
       log = [NewMap 0 None]\<rparr>)"
  by (simp add: OLMapContext_module_def new_Map_def empty_world_def createContext_def)

lemma defaultValue_OLMapContext: "defaultValue OLMapContext = 0"
  by (simp add: OLMapContext_def OLMapContext_module_empty)

lemma component_Shared:
  "component Shared =
     \<lparr>effect_fn = (\<lambda>cur w. (setTarget 0 None, setTarget 0 cur w)), deps = Some [],
      jsx_out = Div False None [Div True (Some ''map'') []]\<rparr>"
  by (simp add: OLMap_shared_def useContext_def defaultValue_OLMapContext)

lemma component_Private:
  "component Private =
     \<lparr>effect_fn = (\<lambda>cur w.
        (let (olMap, w') = new_Map \<lparr>opt_target = cur, opt_layers = [TileLayer OSM],
                                    opt_view = \<lparr>center = (0, 0), zoom = 2\<rparr>\<rparr> w
         in (setTarget olMap None, w'))),
      deps = Some [],
      jsx_out = Div True (Some ''map'') []\<rparr>"
  by (simp add: OLMap_private_def)

declare component.simps [simp del]

lemma boot_Shared:
  "boot Shared =
     \<lparr>ol = \<lparr>heap = [\<lparr>target = None, layers = [TileLayer OSM],
                       view = \<lparr>center = (0, 0), zoom = 2\<rparr>, disposed = False\<rparr>],
             log = [NewMap 0 None]\<rparr>,
      fibers = Map.empty\<rparr>"
  by (simp add: OLMapContext_module_empty)

lemma boot_Private: "boot Private = \<lparr>ol = \<lparr>heap = [], log = []\<rparr>, fibers = Map.empty\<rparr>"
  by (simp add: empty_world_def)

declare boot.simps [simp del]

lemma heap_put [simp]: "heap (put x w) = heap w"
  by (simp add: put_def)

lemma log_put [simp]: "log (put x w) = log w @ [x]"
  by (simp add: put_def)

lemma length_heap_setTarget [simp]: "length (heap (setTarget a t w)) = length (heap w)"
  by (simp add: setTarget_def)

lemma log_setTarget [simp]: "log (setTarget a t w) = log w @ [SetTarget a t]"
  by (simp add: setTarget_def)

lemma length_heap_attach:
  "length (heap (attach m e w)) =
     (case m of Shared \<Rightarrow> length (heap w) | Private \<Rightarrow> Suc (length (heap w)))"
  by (cases m) (simp_all add: attach_def new_Map_def)

lemma log_attach:
  "log (attach m e w) =
     log w @ [case m of Shared \<Rightarrow> SetTarget 0 (Some e)
              | Private \<Rightarrow> NewMap (length (heap w)) (Some e)]"
  by (cases m) (simp_all add: attach_def new_Map_def)

section \<open>One event\<close>

lemma step_Mount:
  "step (component m) (Mount i e) s =
     (if fibers s i = None
      then Some \<lparr>ol = attach m e (put (Committed i e) (put (Rendered i) (ol s))),
                 fibers = (fibers s)(i \<mapsto> \<lparr>ref_current = Some e,
                    destroy = setTarget (viewer m s) None, hook_deps = Some [], node = e\<rparr>)\<rparr>
      else None)"
  by (cases m)
     (auto simp: component_Shared component_Private attach_def viewer_def new_Map_def put_def
           Let_def split: option.splits)

lemma step_Rerender:
  "fibers s i = Some f \<Longrightarrow> hook_deps f = Some [] \<Longrightarrow>
   step (component m) (Rerender i) s = Some (s\<lparr>ol := put (Rendered i) (ol s)\<rparr>)"
  by (cases m) (simp_all add: component_Shared component_Private deps_changed_def Let_def)

lemma step_Unmount:
  "fibers s i = Some f \<Longrightarrow>
   step C (Unmount i) s =
     Some \<lparr>ol = destroy f (put (Removed i (node f)) (ol s)), fibers = (fibers s)(i := None)\<rparr>"
  by simp

lemma step_Rerender_mounted:
  "step C (Rerender i) s = Some s' \<Longrightarrow> \<exists>f. fibers s i = Some f"
  by (cases "fibers s i") simp_all

lemma step_Unmount_mounted:
  "step C (Unmount i) s = Some s' \<Longrightarrow> \<exists>f. fibers s i = Some f"
  by (cases "fibers s i") simp_all

declare step.simps [simp del]

lemma step_MountD:
  assumes "step (component m) (Mount i e) s = Some s'"
  shows "fibers s i = None"
    and "s' = \<lparr>ol = attach m e (put (Committed i e) (put (Rendered i) (ol s))),
               fibers = (fibers s)(i \<mapsto> \<lparr>ref_current = Some e,
                  destroy = setTarget (viewer m s) None, hook_deps = Some [], node = e\<rparr>)\<rparr>"
  using assms by (simp_all add: step_Mount split: if_splits)

lemma step_RerenderD:
  assumes "tidy m s" and "step (component m) (Rerender i) s = Some s'"
  shows "s' = s\<lparr>ol := put (Rendered i) (ol s)\<rparr>"
proof -
  from assms(2) obtain f where f: "fibers s i = Some f"
    by (auto dest: step_Rerender_mounted)
  with assms(1) have "hook_deps f = Some []"
    by (simp add: tidy_def)
  with f assms(2) show ?thesis
    by (simp add: step_Rerender)
qed

lemma step_UnmountD:
  assumes "tidy m s" and "step (component m) (Unmount i) s = Some s'"
  shows "\<exists>f a. fibers s i = Some f \<and> destroy f = setTarget a None \<and>
           a < length (heap (ol s)) \<and> (m = Shared \<longrightarrow> a = 0) \<and>
           s' = \<lparr>ol = setTarget a None (put (Removed i (node f)) (ol s)),
                 fibers = (fibers s)(i := None)\<rparr>"
proof -
  from assms(2) obtain f where f: "fibers s i = Some f"
    by (auto dest: step_Unmount_mounted)
  with assms(1) obtain a where a: "destroy f = setTarget a None" "a < length (heap (ol s))"
      "m = Shared \<longrightarrow> a = 0"
    by (auto simp: tidy_def)
  from f assms(2) a(1)
  have "s' = \<lparr>ol = setTarget a None (put (Removed i (node f)) (ol s)),
              fibers = (fibers s)(i := None)\<rparr>"
    by (simp add: step_Unmount)
  with f a show ?thesis by blast
qed

section \<open>The invariant\<close>

lemma tidy_boot: "tidy m (boot m)"
  by (cases m) (simp_all add: tidy_def boot_Shared boot_Private)

lemma tidy_step:
  assumes "tidy m s" and "step (component m) ev s = Some s'"
  shows "tidy m s'"
proof (cases ev)
  case (Mount i e)
  with assms(2) have s': "s' = \<lparr>ol = attach m e (put (Committed i e) (put (Rendered i) (ol s))),
                 fibers = (fibers s)(i \<mapsto> \<lparr>ref_current = Some e,
                    destroy = setTarget (viewer m s) None, hook_deps = Some [], node = e\<rparr>)\<rparr>"
    by (simp add: step_MountD(2))
  show ?thesis
    using assms(1) unfolding tidy_def s'
    by (cases m) (auto simp: length_heap_attach viewer_def less_Suc_eq)
next
  case (Rerender i)
  with assms have "s' = s\<lparr>ol := put (Rendered i) (ol s)\<rparr>"
    by (simp add: step_RerenderD)
  with assms(1) show ?thesis
    by (simp add: tidy_def)
next
  case (Unmount i)
  with assms(2) have "step (component m) (Unmount i) s = Some s'"
    by simp
  from step_UnmountD [OF assms(1) this]
  obtain f :: fiber and a where "s' = \<lparr>ol = setTarget a None (put (Removed i (node f)) (ol s)),
      fibers = (fibers s)(i := None)\<rparr>"
    by blast
  with assms(1) show ?thesis
    by (auto simp: tidy_def)
qed

lemma tidy_run:
  "tidy m s \<Longrightarrow> run (component m) evs s = Some s' \<Longrightarrow> tidy m s'"
proof (induction evs arbitrary: s)
  case Nil
  then show ?case by simp
next
  case (Cons ev evs)
  then show ?case
    by (auto split: option.splits dest: tidy_step)
qed

lemma reachable_tidy: "run (component m) evs (boot m) = Some s \<Longrightarrow> tidy m s"
  using tidy_boot tidy_run by blast

section \<open>The viewer of the context\<close>

text \<open>
  C5. The viewer held by the context is built detached: right after the module has been
  evaluated its target is absent, its centre is (0, 0), its zoom is 2 and its layers are
  the one OSM tile layer, and the only call made so far is the constructor, without a
  target.
\<close>

theorem holder_constructed_detached:
  "target (heap (ol (boot Shared)) ! defaultValue OLMapContext) = None \<and>
   center (view (heap (ol (boot Shared)) ! defaultValue OLMapContext)) = (0, 0) \<and>
   zoom (view (heap (ol (boot Shared)) ! defaultValue OLMapContext)) = 2 \<and>
   layers (heap (ol (boot Shared)) ! defaultValue OLMapContext) = [TileLayer OSM] \<and>
   log (ol (boot Shared)) = [NewMap (defaultValue OLMapContext) None]"
  by (simp add: defaultValue_OLMapContext boot_Shared)

text \<open>
  C10. Mounted on the same node, the private component and the shared one leave the same
  viewer in the store: the one with centre (0, 0), zoom 2 and the single OSM tile layer,
  which is also the description the viewer of the context has before any mount.
\<close>

theorem private_shared_same_description:
  "\<exists>p q. step (component Private) (Mount i e) (boot Private) = Some p \<and>
         step (component Shared) (Mount i e) (boot Shared) = Some q \<and>
         heap (ol p) = heap (ol q) \<and>
         heap (ol p) = [\<lparr>target = Some e, layers = [TileLayer OSM],
                         view = \<lparr>center = (0, 0), zoom = 2\<rparr>, disposed = False\<rparr>] \<and>
         layers (heap (ol (boot Shared)) ! defaultValue OLMapContext) = [TileLayer OSM] \<and>
         view (heap (ol (boot Shared)) ! defaultValue OLMapContext) =
           \<lparr>center = (0, 0), zoom = 2\<rparr>"
  by (simp add: step_Mount attach_def new_Map_def setTarget_def put_def boot_Shared
        boot_Private defaultValue_OLMapContext)


section \<open>What one event adds to the log\<close>

lemma step_log:
  assumes "tidy m s" and "step (component m) ev s = Some s'"
  shows "\<exists>a. (m = Shared \<longrightarrow> a = 0) \<and> log (ol s') = log (ol s) @
     (case ev of
        Mount i e \<Rightarrow> [Rendered i, Committed i e,
                       case m of Shared \<Rightarrow> SetTarget 0 (Some e)
                       | Private \<Rightarrow> NewMap (length (heap (ol s))) (Some e)]
      | Rerender i \<Rightarrow> [Rendered i]
      | Unmount i \<Rightarrow> [Removed i (node (the (fibers s i))), SetTarget a None])"
proof (cases ev)
  case (Mount i e)
  with assms(2) show ?thesis
    by (cases m) (auto dest!: step_MountD(2) simp: log_attach)
next
  case (Rerender i)
  with assms show ?thesis
    by (auto dest!: step_RerenderD)
next
  case (Unmount i)
  with assms show ?thesis
    by (auto dest!: step_UnmountD)
qed

lemma attach_after_commit_append:
  "attach_after_commit live (l1 @ l2) \<longleftrightarrow>
     attach_after_commit live l1 \<and> attach_after_commit (live_after live l1) l2"
  by (induction live l1 rule: attach_after_commit.induct) simp_all

lemma step_attach_after_commit:
  assumes "tidy m s" and "step (component m) ev s = Some s'"
    and "attach_after_commit live (log (ol s))"
  shows "attach_after_commit live (log (ol s'))"
proof -
  from step_log [OF assms(1,2)] obtain a where
    "log (ol s') = log (ol s) @
     (case ev of
        Mount i e \<Rightarrow> [Rendered i, Committed i e,
                       case m of Shared \<Rightarrow> SetTarget 0 (Some e)
                       | Private \<Rightarrow> NewMap (length (heap (ol s))) (Some e)]
      | Rerender i \<Rightarrow> [Rendered i]
      | Unmount i \<Rightarrow> [Removed i (node (the (fibers s i))), SetTarget a None])"
    by blast
  with assms(3) show ?thesis
    by (cases ev; cases m) (simp_all add: attach_after_commit_append)
qed

lemma run_attach_after_commit:
  "tidy m s \<Longrightarrow> run (component m) evs s = Some s' \<Longrightarrow>
   attach_after_commit live (log (ol s)) \<Longrightarrow> attach_after_commit live (log (ol s'))"
proof (induction evs arbitrary: s)
  case Nil
  then show ?case by simp
next
  case (Cons ev evs)
  from Cons.prems(2) obtain s1 where s1: "step (component m) ev s = Some s1"
      and rest: "run (component m) evs s1 = Some s'"
    by (auto split: option.splits)
  from Cons.prems(1) s1 have t1: "tidy m s1"
    by (rule tidy_step)
  from Cons.prems(1) s1 Cons.prems(3) have "attach_after_commit live (log (ol s1))"
    by (rule step_attach_after_commit)
  with t1 rest show ?case
    by (rule Cons.IH)
qed

section \<open>Attaching after the commit\<close>

lemma boot_attach_after_commit: "attach_after_commit [] (log (ol (boot m)))"
  by (cases m) (simp_all add: boot_Shared boot_Private)

lemmas eval_defs = step.simps boot_Shared boot_Private component_Shared component_Private
  put_def setTarget_def new_Map_def deps_changed_def Let_def

text \<open>
  C1. In every run of either component, from the start of the application, each call that
  attaches a viewer to a node (a map built with a target, or \<open>setTarget\<close> with a node) comes
  in the log after the commit of that node and before its removal: the call sits in the
  effect, which runs after the commit, and the render itself makes no call.
\<close>

theorem attach_only_after_commit:
  assumes "run (component m) evs (boot m) = Some s"
  shows "attach_after_commit [] (log (ol s))"
  using tidy_boot assms boot_attach_after_commit by (rule run_attach_after_commit)

theorem attach_only_after_commit_witness:
  "run (component Shared) [Mount 1 7, Rerender 1, Unmount 1, Mount 2 9] (boot Shared) \<noteq> None \<and>
   attach_after_commit []
     [NewMap 0 None, Rendered 1, Committed 1 7, SetTarget 0 (Some 7), Rendered 1,
      Removed 1 7, SetTarget 0 None, Rendered 2, Committed 2 9, SetTarget 0 (Some 9)]"
proof -
  have r: "run (component Shared) [Mount 1 7, Rerender 1, Unmount 1, Mount 2 9] (boot Shared) =
    Some \<lparr>ol = \<lparr>heap = [\<lparr>target = Some 9, layers = [TileLayer OSM],
                          view = \<lparr>center = (0, 0), zoom = 2\<rparr>, disposed = False\<rparr>],
                log = [NewMap 0 None, Rendered 1, Committed 1 7, SetTarget 0 (Some 7),
                       Rendered 1, Removed 1 7, SetTarget 0 None, Rendered 2, Committed 2 9,
                       SetTarget 0 (Some 9)]\<rparr>,
          fibers = [2 \<mapsto> \<lparr>ref_current = Some 9, destroy = setTarget 0 None,
                           hook_deps = Some [], node = 9\<rparr>]\<rparr>"
    by (simp add: eval_defs fun_eq_iff)
  from attach_only_after_commit [OF r] r show ?thesis
    by simp
qed


section \<open>What a run leaves unchanged\<close>

lemma keeps_refl: "keeps h h"
  by (simp add: keeps_def)

lemma keeps_trans: "keeps h1 h2 \<Longrightarrow> keeps h2 h3 \<Longrightarrow> keeps h1 h3"
  by (auto simp: keeps_def)

lemma keeps_setTarget: "keeps (heap w) (heap (setTarget a t w))"
  by (auto simp: keeps_def setTarget_def nth_list_update)

lemma keeps_attach: "keeps (heap w) (heap (attach m e w))"
  by (cases m) (auto simp: keeps_def attach_def setTarget_def new_Map_def nth_list_update nth_append)

lemma step_keeps:
  assumes "tidy m s" and "step (component m) ev s = Some s'"
  shows "keeps (heap (ol s)) (heap (ol s'))"
proof (cases ev)
  case (Mount i e)
  with assms(2) have "step (component m) (Mount i e) s = Some s'"
    by simp
  from step_MountD(2) [OF this]
  have "heap (ol s') = heap (attach m e (put (Committed i e) (put (Rendered i) (ol s))))"
    by simp
  moreover have "keeps (heap (put (Committed i e) (put (Rendered i) (ol s))))
      (heap (attach m e (put (Committed i e) (put (Rendered i) (ol s)))))"
    by (rule keeps_attach)
  ultimately show ?thesis by simp
next
  case (Rerender i)
  with assms have "s' = s\<lparr>ol := put (Rendered i) (ol s)\<rparr>"
    by (simp add: step_RerenderD)
  then show ?thesis by (simp add: keeps_refl)
next
  case (Unmount i)
  with assms(2) have "step (component m) (Unmount i) s = Some s'"
    by simp
  from step_UnmountD [OF assms(1) this]
  obtain f :: fiber and a where "s' = \<lparr>ol = setTarget a None (put (Removed i (node f)) (ol s)),
      fibers = (fibers s)(i := None)\<rparr>"
    by blast
  moreover have "keeps (heap (put (Removed i (node f)) (ol s)))
      (heap (setTarget a None (put (Removed i (node f)) (ol s))))"
    by (rule keeps_setTarget)
  ultimately show ?thesis by simp
qed

lemma run_keeps:
  "tidy m s \<Longrightarrow> run (component m) evs s = Some s' \<Longrightarrow> keeps (heap (ol s)) (heap (ol s'))"
proof (induction evs arbitrary: s)
  case Nil
  then show ?case by (simp add: keeps_refl)
next
  case (Cons ev evs)
  from Cons.prems(2) obtain s1 where s1: "step (component m) ev s = Some s1"
      and rest: "run (component m) evs s1 = Some s'"
    by (auto split: option.splits)
  from Cons.prems(1) s1 have t1: "tidy m s1"
    by (rule tidy_step)
  from Cons.prems(1) s1 have "keeps (heap (ol s)) (heap (ol s1))"
    by (rule step_keeps)
  moreover from t1 rest have "keeps (heap (ol s1)) (heap (ol s'))"
    by (rule Cons.IH)
  ultimately show ?case by (rule keeps_trans)
qed

text \<open>An instance stays as its mount left it until it is unmounted.\<close>

lemma step_fiber_kept:
  assumes "tidy m s" and "step (component m) ev s = Some s'" and "fibers s i = Some f"
    and "ev \<noteq> Unmount i"
  shows "fibers s' i = Some f"
proof (cases ev)
  case (Mount j e)
  with assms(2) have st: "step (component m) (Mount j e) s = Some s'"
    by simp
  from step_MountD(2) [OF st]
  have "fibers s' = (fibers s)(j \<mapsto> \<lparr>ref_current = Some e,
                  destroy = setTarget (viewer m s) None, hook_deps = Some [], node = e\<rparr>)"
    by simp
  with step_MountD(1) [OF st] assms(3) show ?thesis by auto
next
  case (Rerender j)
  with assms have "s' = s\<lparr>ol := put (Rendered j) (ol s)\<rparr>"
    by (simp add: step_RerenderD)
  with assms(3) show ?thesis by simp
next
  case (Unmount j)
  with assms(2) have "step (component m) (Unmount j) s = Some s'"
    by simp
  from step_UnmountD [OF assms(1) this]
  have "fibers s' = (fibers s)(j := None)"
    by auto
  with assms(3,4) Unmount show ?thesis by auto
qed

lemma run_fiber_kept:
  "tidy m s \<Longrightarrow> run (component m) evs s = Some s' \<Longrightarrow> fibers s i = Some f \<Longrightarrow>
   Unmount i \<notin> set evs \<Longrightarrow> fibers s' i = Some f"
proof (induction evs arbitrary: s)
  case Nil
  then show ?case by simp
next
  case (Cons ev evs)
  from Cons.prems(2) obtain s1 where s1: "step (component m) ev s = Some s1"
      and rest: "run (component m) evs s1 = Some s'"
    by (auto split: option.splits)
  from Cons.prems(1) s1 have t1: "tidy m s1"
    by (rule tidy_step)
  from Cons.prems(4) have ne: "ev \<noteq> Unmount i" and later: "Unmount i \<notin> set evs"
    by auto
  from Cons.prems(1) s1 Cons.prems(3) ne have "fibers s1 i = Some f"
    by (rule step_fiber_kept)
  with t1 rest show ?case
    using later by (rule Cons.IH)
qed


section \<open>Counting the calls of a run\<close>

lemma run_append:
  "run C (xs @ ys) s = (case run C xs s of None \<Rightarrow> None | Some s' \<Rightarrow> run C ys s')"
  by (induction xs arbitrary: s) (auto split: option.splits)

lemma step_counts:
  assumes "tidy m s" and "step (component m) ev s = Some s'"
  shows "length (filter is_attach (log (ol s'))) =
           length (filter is_attach (log (ol s))) + (if is_Mount ev then 1 else 0)"
    and "length (filter is_detach (log (ol s'))) =
           length (filter is_detach (log (ol s))) + (if is_Unmount ev then 1 else 0)"
    and "length (filter is_construct (log (ol s'))) =
           length (filter is_construct (log (ol s))) +
           (if m = Private \<and> is_Mount ev then 1 else 0)"
    and "filter is_teardown (log (ol s')) = filter is_teardown (log (ol s))"
    and "m = Shared \<Longrightarrow> \<forall>x \<in> set (log (ol s)). viewer_of x = None \<or> viewer_of x = Some 0 \<Longrightarrow>
           \<forall>x \<in> set (log (ol s')). viewer_of x = None \<or> viewer_of x = Some 0"
proof -
  from step_log [OF assms] obtain a where a: "m = Shared \<longrightarrow> a = 0" and
    l: "log (ol s') = log (ol s) @
     (case ev of
        Mount i e \<Rightarrow> [Rendered i, Committed i e,
                       case m of Shared \<Rightarrow> SetTarget 0 (Some e)
                       | Private \<Rightarrow> NewMap (length (heap (ol s))) (Some e)]
      | Rerender i \<Rightarrow> [Rendered i]
      | Unmount i \<Rightarrow> [Removed i (node (the (fibers s i))), SetTarget a None])"
    by blast
  show "length (filter is_attach (log (ol s'))) =
           length (filter is_attach (log (ol s))) + (if is_Mount ev then 1 else 0)"
    unfolding l by (cases ev; cases m) (simp_all add: is_attach_def)
  show "length (filter is_detach (log (ol s'))) =
           length (filter is_detach (log (ol s))) + (if is_Unmount ev then 1 else 0)"
    unfolding l by (cases ev; cases m) simp_all
  show "length (filter is_construct (log (ol s'))) =
           length (filter is_construct (log (ol s))) +
           (if m = Private \<and> is_Mount ev then 1 else 0)"
    unfolding l by (cases ev; cases m) simp_all
  show "filter is_teardown (log (ol s')) = filter is_teardown (log (ol s))"
    unfolding l by (cases ev; cases m) simp_all
  show "\<forall>x \<in> set (log (ol s')). viewer_of x = None \<or> viewer_of x = Some 0"
    if "m = Shared" "\<forall>x \<in> set (log (ol s)). viewer_of x = None \<or> viewer_of x = Some 0"
    using that a unfolding l by (cases ev) auto
qed

lemma run_counts:
  "tidy m s \<Longrightarrow> run (component m) evs s = Some s' \<Longrightarrow>
   length (filter is_attach (log (ol s'))) =
     length (filter is_attach (log (ol s))) + length (filter is_Mount evs) \<and>
   length (filter is_detach (log (ol s'))) =
     length (filter is_detach (log (ol s))) + length (filter is_Unmount evs) \<and>
   length (filter is_construct (log (ol s'))) =
     length (filter is_construct (log (ol s))) +
     (if m = Private then length (filter is_Mount evs) else 0) \<and>
   filter is_teardown (log (ol s')) = filter is_teardown (log (ol s))"
proof (induction evs arbitrary: s)
  case Nil
  then show ?case by simp
next
  case (Cons ev evs)
  from Cons.prems(2) obtain s1 where s1: "step (component m) ev s = Some s1"
      and rest: "run (component m) evs s1 = Some s'"
    by (auto split: option.splits)
  from Cons.prems(1) s1 have t1: "tidy m s1"
    by (rule tidy_step)
  from Cons.IH [OF t1 rest] step_counts(1-4) [OF Cons.prems(1) s1]
  show ?case by simp
qed

lemma run_shared_viewer:
  "tidy Shared s \<Longrightarrow> run (component Shared) evs s = Some s' \<Longrightarrow>
   \<forall>x \<in> set (log (ol s)). viewer_of x = None \<or> viewer_of x = Some 0 \<Longrightarrow>
   \<forall>x \<in> set (log (ol s')). viewer_of x = None \<or> viewer_of x = Some 0"
proof (induction evs arbitrary: s)
  case Nil
  then show ?case by simp
next
  case (Cons ev evs)
  from Cons.prems(2) obtain s1 where s1: "step (component Shared) ev s = Some s1"
      and rest: "run (component Shared) evs s1 = Some s'"
    by (auto split: option.splits)
  from Cons.prems(1) s1 have t1: "tidy Shared s1"
    by (rule tidy_step)
  from step_counts(5) [OF Cons.prems(1) s1 refl Cons.prems(3)]
  have "\<forall>x \<in> set (log (ol s1)). viewer_of x = None \<or> viewer_of x = Some 0" .
  with t1 rest show ?case
    by (rule Cons.IH)
qed

lemma run_rerenders:
  "tidy m s \<Longrightarrow> fibers s i = Some f \<Longrightarrow>
   run (component m) (replicate n (Rerender i)) s =
     Some (s\<lparr>ol := (ol s)\<lparr>log := log (ol s) @ replicate n (Rendered i)\<rparr>\<rparr>)"
proof (induction n arbitrary: s)
  case 0
  then show ?case by simp
next
  case (Suc n)
  from Suc.prems have d: "hook_deps f = Some []"
    by (simp add: tidy_def)
  let ?s1 = "s\<lparr>ol := put (Rendered i) (ol s)\<rparr>"
  from Suc.prems(2) d have st: "step (component m) (Rerender i) s = Some ?s1"
    by (rule step_Rerender)
  with Suc.prems(1) have "tidy m ?s1"
    by (rule tidy_step)
  moreover from Suc.prems(2) have "fibers ?s1 i = Some f"
    by simp
  ultimately have "run (component m) (replicate n (Rerender i)) ?s1 =
     Some (?s1\<lparr>ol := (ol ?s1)\<lparr>log := log (ol ?s1) @ replicate n (Rendered i)\<rparr>\<rparr>)"
    by (rule Suc.IH)
  with st show ?case
    by (simp add: put_def replicate_app_Cons_same)
qed


section \<open>Rendering again\<close>

text \<open>
  C4. A mount followed by any number of renders of the same instance, with no unmount,
  makes exactly one attaching call and no detaching call, in either mode: the dependency
  array is empty, so the effect runs on the mount only.
\<close>

theorem rerender_does_not_attach_again:
  "\<exists>s. run (component m) (Mount i e # replicate n (Rerender i)) (boot m) = Some s \<and>
        length (filter is_attach (log (ol s))) = 1 \<and>
        length (filter is_detach (log (ol s))) = 0 \<and>
        log (ol s) = log (ol (boot m)) @
          [Rendered i, Committed i e,
           case m of Shared \<Rightarrow> SetTarget (defaultValue OLMapContext) (Some e)
           | Private \<Rightarrow> NewMap 0 (Some e)] @ replicate n (Rendered i)"
proof -
  let ?s1 = "\<lparr>ol = attach m e (put (Committed i e) (put (Rendered i) (ol (boot m)))),
              fibers = (fibers (boot m))(i \<mapsto> \<lparr>ref_current = Some e,
                destroy = setTarget (viewer m (boot m)) None, hook_deps = Some [], node = e\<rparr>)\<rparr>"
  have "fibers (boot m) i = None"
    by (cases m) (simp_all add: boot_Shared boot_Private)
  then have st: "step (component m) (Mount i e) (boot m) = Some ?s1"
    by (simp add: step_Mount)
  with tidy_boot have t1: "tidy m ?s1"
    by (rule tidy_step)
  have "fibers ?s1 i = Some \<lparr>ref_current = Some e,
      destroy = setTarget (viewer m (boot m)) None, hook_deps = Some [], node = e\<rparr>"
    by simp
  with t1 have r: "run (component m) (replicate n (Rerender i)) ?s1 =
      Some (?s1\<lparr>ol := (ol ?s1)\<lparr>log := log (ol ?s1) @ replicate n (Rendered i)\<rparr>\<rparr>)"
    by (rule run_rerenders)
  let ?s = "?s1\<lparr>ol := (ol ?s1)\<lparr>log := log (ol ?s1) @ replicate n (Rendered i)\<rparr>\<rparr>"
  from st r have run: "run (component m) (Mount i e # replicate n (Rerender i)) (boot m) = Some ?s"
    by simp
  have l: "log (ol ?s) = log (ol (boot m)) @
          [Rendered i, Committed i e,
           case m of Shared \<Rightarrow> SetTarget (defaultValue OLMapContext) (Some e)
           | Private \<Rightarrow> NewMap 0 (Some e)] @ replicate n (Rendered i)"
    by (cases m) (simp_all add: log_attach boot_Private defaultValue_OLMapContext)
  have "length (filter is_attach (log (ol ?s))) = 1"
    unfolding l by (cases m) (simp_all add: is_attach_def boot_Shared boot_Private)
  moreover have "length (filter is_detach (log (ol ?s))) = 0"
    unfolding l by (cases m) (simp_all add: boot_Shared boot_Private)
  ultimately show ?thesis
    using run l by blast
qed


section \<open>From a mount to its unmount\<close>

lemma target_attach:
  "m = Shared \<longrightarrow> 0 < length (heap (ol s)) \<Longrightarrow>
   target (heap (attach m e (put x (put y (ol s)))) ! viewer m s) = Some e"
  by (cases m) (simp_all add: attach_def setTarget_def new_Map_def viewer_def)

lemma target_setTarget:
  "a < length (heap w) \<Longrightarrow> target (heap (setTarget a t w) ! a) = t"
  by (simp add: setTarget_def)

text \<open>
  What a mount leaves behind and what the unmount that ends it does, in either mode.
\<close>

lemma mount_then_unmount:
  assumes reach: "tidy m s"
    and mount: "step (component m) (Mount i e) s = Some s1"
    and between: "run (component m) evs' s1 = Some s2"
    and first: "Unmount i \<notin> set evs'"
  shows "viewer m s < length (heap (ol s1))"
    and "target (heap (ol s1) ! viewer m s) = Some e"
    and "log (ol s1) = log (ol s) @ [Rendered i, Committed i e,
           case m of Shared \<Rightarrow> SetTarget 0 (Some e)
           | Private \<Rightarrow> NewMap (length (heap (ol s))) (Some e)]"
    and "step (component m) (Unmount i) s2 =
           Some \<lparr>ol = setTarget (viewer m s) None (put (Removed i e) (ol s2)),
                 fibers = (fibers s2)(i := None)\<rparr>"
    and "keeps (heap (ol s1)) (heap (ol s2))"
proof -
  let ?f = "\<lparr>ref_current = Some e, destroy = setTarget (viewer m s) None,
             hook_deps = Some [], node = e\<rparr>"
  note s1 = step_MountD(2) [OF mount]
  from reach mount have t1: "tidy m s1"
    by (rule tidy_step)
  from reach have one: "m = Shared \<longrightarrow> 0 < length (heap (ol s))"
    by (simp add: tidy_def)
  show "viewer m s < length (heap (ol s1))"
    using one unfolding s1 by (cases m) (simp_all add: length_heap_attach viewer_def)
  from one show "target (heap (ol s1) ! viewer m s) = Some e"
    unfolding s1 by (simp add: target_attach)
  show "log (ol s1) = log (ol s) @ [Rendered i, Committed i e,
           case m of Shared \<Rightarrow> SetTarget 0 (Some e)
           | Private \<Rightarrow> NewMap (length (heap (ol s))) (Some e)]"
    unfolding s1 by (cases m) (simp_all add: log_attach)
  have "fibers s1 i = Some ?f"
    unfolding s1 by simp
  with t1 between have "fibers s2 i = Some ?f"
    using first by (rule run_fiber_kept)
  then show "step (component m) (Unmount i) s2 =
           Some \<lparr>ol = setTarget (viewer m s) None (put (Removed i e) (ol s2)),
                 fibers = (fibers s2)(i := None)\<rparr>"
    by (simp add: step_Unmount)
  from t1 between show "keeps (heap (ol s1)) (heap (ol s2))"
    by (rule run_keeps)
qed

text \<open>
  C3, as the sources have it. The detaching call sits in the cleanup of a \<open>useEffect\<close>,
  which React runs after it has removed the node. In either mode, a mount and its unmount
  leave a log in which the removal of the node comes first and the call that clears the
  target second: the node is removed while the viewer is still targeted at it.
\<close>

theorem detach_follows_removal:
  "map_option (log \<circ> ol) (run (component Shared) [Mount 1 7, Unmount 1] (boot Shared)) =
     Some [NewMap 0 None, Rendered 1, Committed 1 7, SetTarget 0 (Some 7), Removed 1 7,
           SetTarget 0 None] \<and>
   map_option (detach_before_removal [] \<circ> log \<circ> ol)
     (run (component Shared) [Mount 1 7, Unmount 1] (boot Shared)) = Some False \<and>
   map_option (log \<circ> ol) (run (component Private) [Mount 1 7, Unmount 1] (boot Private)) =
     Some [Rendered 1, Committed 1 7, NewMap 0 (Some 7), Removed 1 7, SetTarget 0 None] \<and>
   map_option (detach_before_removal [] \<circ> log \<circ> ol)
     (run (component Private) [Mount 1 7, Unmount 1] (boot Private)) = Some False"
  by (simp add: eval_defs retarget_def)

text \<open>
  C3, amended. Take any run, a mount of an instance \<open>i\<close> on a node \<open>e\<close> after it, and any
  further events up to the first unmount of \<open>i\<close>. The mount attached a viewer to \<open>e\<close>; the
  unmount makes exactly one call, in the cleanup of the effect, which clears the target
  of that viewer; the instance is gone afterwards, so the unmount cannot be repeated;
  and over the whole history there are as many detaching calls as unmounts.
\<close>

theorem detach_once_on_unmount:
  assumes "run (component m) evs (boot m) = Some s"
    and "step (component m) (Mount i e) s = Some s1"
    and "run (component m) evs' s1 = Some s2"
    and "Unmount i \<notin> set evs'"
  shows "\<exists>a s3. a < length (heap (ol s1)) \<and> target (heap (ol s1) ! a) = Some e \<and>
           viewer_of (last (log (ol s1))) = Some a \<and> attach_of (last (log (ol s1))) = Some e \<and>
           step (component m) (Unmount i) s2 = Some s3 \<and>
           log (ol s3) = log (ol s2) @ [Removed i e, SetTarget a None] \<and>
           target (heap (ol s3) ! a) = None \<and>
           step (component m) (Unmount i) s3 = None \<and>
           length (filter is_detach (log (ol s3))) =
             length (filter is_Unmount (evs @ Mount i e # evs' @ [Unmount i]))"
proof -
  let ?a = "viewer m s"
  let ?s3 = "\<lparr>ol = setTarget ?a None (put (Removed i e) (ol s2)),
              fibers = (fibers s2)(i := None)\<rparr>"
  from assms(1) have reach: "tidy m s"
    by (rule reachable_tidy)
  note facts = mount_then_unmount [OF reach assms(2,3,4)]
  from facts(1,5) have lt: "?a < length (heap (ol s2))"
    by (simp add: keeps_def)
  have "viewer_of (last (log (ol s1))) = Some ?a \<and> attach_of (last (log (ol s1))) = Some e"
    unfolding facts(3) by (cases m) (simp_all add: viewer_def)
  moreover have "log (ol ?s3) = log (ol s2) @ [Removed i e, SetTarget ?a None]"
    by simp
  moreover from lt have "target (heap (ol ?s3) ! ?a) = None"
    by (simp add: target_setTarget)
  moreover have "step (component m) (Unmount i) ?s3 = None"
    by (simp add: step.simps)
  moreover have "length (filter is_detach (log (ol ?s3))) =
             length (filter is_Unmount (evs @ Mount i e # evs' @ [Unmount i]))"
  proof -
    from assms(1,2,3) facts(4)
    have "run (component m) (evs @ Mount i e # evs' @ [Unmount i]) (boot m) = Some ?s3"
      by (simp add: run_append)
    from run_counts [OF tidy_boot this] show ?thesis
      by (cases m) (simp_all add: boot_Shared boot_Private)
  qed
  ultimately show ?thesis
    using facts(1,2,4) by blast
qed

theorem detach_once_on_unmount_witness:
  "\<exists>a s3. a < 1 \<and> 
     step (component Shared) (Unmount 1)
       \<lparr>ol = \<lparr>heap = [\<lparr>target = Some 7, layers = [TileLayer OSM],
                        view = \<lparr>center = (0, 0), zoom = 2\<rparr>, disposed = False\<rparr>],
              log = [NewMap 0 None, Rendered 1, Committed 1 7, SetTarget 0 (Some 7), Rendered 1]\<rparr>,
        fibers = [1 \<mapsto> \<lparr>ref_current = Some 7, destroy = setTarget 0 None,
                         hook_deps = Some [], node = 7\<rparr>]\<rparr> = Some s3 \<and>
     log (ol s3) = [NewMap 0 None, Rendered 1, Committed 1 7, SetTarget 0 (Some 7), Rendered 1,
                    Removed 1 7, SetTarget a None] \<and>
     target (heap (ol s3) ! a) = None \<and>
     step (component Shared) (Unmount 1) s3 = None \<and>
     length (filter is_detach (log (ol s3))) = 1"
proof -
  let ?s1 = "\<lparr>ol = \<lparr>heap = [\<lparr>target = Some 7, layers = [TileLayer OSM],
                        view = \<lparr>center = (0, 0), zoom = 2\<rparr>, disposed = False\<rparr>],
              log = [NewMap 0 None, Rendered 1, Committed 1 7, SetTarget 0 (Some 7)]\<rparr>,
        fibers = [1 \<mapsto> \<lparr>ref_current = Some 7, destroy = setTarget 0 None,
                         hook_deps = Some [], node = 7\<rparr>]\<rparr>"
  let ?s2 = "\<lparr>ol = \<lparr>heap = [\<lparr>target = Some 7, layers = [TileLayer OSM],
                        view = \<lparr>center = (0, 0), zoom = 2\<rparr>, disposed = False\<rparr>],
              log = [NewMap 0 None, Rendered 1, Committed 1 7, SetTarget 0 (Some 7), Rendered 1]\<rparr>,
        fibers = [1 \<mapsto> \<lparr>ref_current = Some 7, destroy = setTarget 0 None,
                         hook_deps = Some [], node = 7\<rparr>]\<rparr>"
  have a: "run (component Shared) [] (boot Shared) = Some (boot Shared)"
    by simp
  have b: "step (component Shared) (Mount 1 7) (boot Shared) = Some ?s1"
    by (simp add: eval_defs fun_eq_iff)
  have c: "run (component Shared) [Rerender 1] ?s1 = Some ?s2"
    by (simp add: eval_defs fun_eq_iff)
  have d: "Unmount 1 \<notin> set [Rerender 1]"
    by simp
  from detach_once_on_unmount [OF a b c d] show ?thesis
    by simp
qed

section \<open>The shared viewer\<close>

lemma boot_shared_viewer:
  "\<forall>x \<in> set (log (ol (boot Shared))). viewer_of x = None \<or> viewer_of x = Some 0"
  by (simp add: boot_Shared)

text \<open>
  C2. In the shared mode every instance takes the viewer from the context, with no provider
  around it, so each gets the default value. Whatever the events, the store holds one
  viewer, the constructor has been called once, at the evaluation of the module, and
  every call any instance makes addresses that one viewer.
\<close>

theorem shared_viewer_is_single:
  assumes "run (component Shared) evs (boot Shared) = Some s"
  shows "useContext [] OLMapContext = defaultValue OLMapContext \<and>
         length (heap (ol s)) = 1 \<and>
         length (filter is_construct (log (ol s))) = 1 \<and>
         (\<forall>x \<in> set (log (ol s)).
            viewer_of x = None \<or> viewer_of x = Some (defaultValue OLMapContext))"
proof -
  from assms have "tidy Shared s"
    by (rule reachable_tidy)
  then have "length (heap (ol s)) = 1"
    by (simp add: tidy_def)
  moreover from run_counts [OF tidy_boot assms]
  have "length (filter is_construct (log (ol s))) = 1"
    by (simp add: boot_Shared)
  moreover from tidy_boot assms boot_shared_viewer
  have "\<forall>x \<in> set (log (ol s)). viewer_of x = None \<or> viewer_of x = Some 0"
    by (rule run_shared_viewer)
  ultimately show ?thesis
    by (simp add: useContext_def defaultValue_OLMapContext)
qed

theorem shared_viewer_is_single_witness:
  "run (component Shared) [Mount 1 7, Mount 2 9] (boot Shared) =
     Some \<lparr>ol = \<lparr>heap = [\<lparr>target = Some 9, layers = [TileLayer OSM],
                          view = \<lparr>center = (0, 0), zoom = 2\<rparr>, disposed = False\<rparr>],
                log = [NewMap 0 None, Rendered 1, Committed 1 7, SetTarget 0 (Some 7),
                       Rendered 2, Committed 2 9, SetTarget 0 (Some 9)]\<rparr>,
           fibers = [1 \<mapsto> \<lparr>ref_current = Some 7, destroy = setTarget 0 None,
                            hook_deps = Some [], node = 7\<rparr>,
                     2 \<mapsto> \<lparr>ref_current = Some 9, destroy = setTarget 0 None,
                            hook_deps = Some [], node = 9\<rparr>]\<rparr> \<and>
   useContext [] OLMapContext = defaultValue OLMapContext \<and>
   length (filter is_construct
     [NewMap 0 None, Rendered 1, Committed 1 7, SetTarget 0 (Some 7),
      Rendered 2, Committed 2 9, SetTarget 0 (Some 9)]) = 1 \<and>
   map viewer_of [NewMap 0 None, Rendered 1, Committed 1 7, SetTarget 0 (Some 7),
                  Rendered 2, Committed 2 9, SetTarget 0 (Some 9)] =
     [Some (defaultValue OLMapContext), None, None, Some (defaultValue OLMapContext),
      None, None, Some (defaultValue OLMapContext)]"
proof -
  have r: "run (component Shared) [Mount 1 7, Mount 2 9] (boot Shared) =
     Some \<lparr>ol = \<lparr>heap = [\<lparr>target = Some 9, layers = [TileLayer OSM],
                          view = \<lparr>center = (0, 0), zoom = 2\<rparr>, disposed = False\<rparr>],
                log = [NewMap 0 None, Rendered 1, Committed 1 7, SetTarget 0 (Some 7),
                       Rendered 2, Committed 2 9, SetTarget 0 (Some 9)]\<rparr>,
           fibers = [1 \<mapsto> \<lparr>ref_current = Some 7, destroy = setTarget 0 None,
                            hook_deps = Some [], node = 7\<rparr>,
                     2 \<mapsto> \<lparr>ref_current = Some 9, destroy = setTarget 0 None,
                            hook_deps = Some [], node = 9\<rparr>]\<rparr>"
    by (simp add: eval_defs fun_eq_iff)
  from shared_viewer_is_single [OF r] r show ?thesis
    by (simp add: defaultValue_OLMapContext)
qed

text \<open>
  C8. In the shared mode no event changes the description of the viewer: after any run
  the viewer of the context is the one the module built, with at most its target
  replaced. Its centre, zoom and layers are those of the construction, it has not been
  disposed of, and the log holds no constructor call beyond the first and no teardown.
\<close>

theorem shared_run_writes_target_only:
  assumes "run (component Shared) evs (boot Shared) = Some s"
  shows "heap (ol s) =
           [(heap (ol (boot Shared)) ! defaultValue OLMapContext)
              \<lparr>target := target (heap (ol s) ! defaultValue OLMapContext)\<rparr>] \<and>
         center (view (heap (ol s) ! defaultValue OLMapContext)) = (0, 0) \<and>
         zoom (view (heap (ol s) ! defaultValue OLMapContext)) = 2 \<and>
         layers (heap (ol s) ! defaultValue OLMapContext) = [TileLayer OSM] \<and>
         length (filter is_construct (log (ol s))) = 1 \<and>
         filter is_teardown (log (ol s)) = []"
proof -
  from assms have "tidy Shared s"
    by (rule reachable_tidy)
  then have len: "length (heap (ol s)) = 1"
    by (simp add: tidy_def)
  then obtain v where v: "heap (ol s) = [v]"
    by (cases "heap (ol s)") simp_all
  from tidy_boot assms have "keeps (heap (ol (boot Shared))) (heap (ol s))"
    by (rule run_keeps)
  with v have d: "layers v = [TileLayer OSM]" "view v = \<lparr>center = (0, 0), zoom = 2\<rparr>"
      "disposed v = False"
    by (simp_all add: keeps_def boot_Shared)
  then have "v = \<lparr>target = target v, layers = [TileLayer OSM],
      view = \<lparr>center = (0, 0), zoom = 2\<rparr>, disposed = False\<rparr>"
    by (cases v) simp
  with v d have "heap (ol s) =
           [(heap (ol (boot Shared)) ! defaultValue OLMapContext)
              \<lparr>target := target (heap (ol s) ! defaultValue OLMapContext)\<rparr>]"
    by (simp add: boot_Shared defaultValue_OLMapContext)
  moreover from run_counts [OF tidy_boot assms]
  have "length (filter is_construct (log (ol s))) = 1 \<and> filter is_teardown (log (ol s)) = []"
    by (simp add: boot_Shared)
  ultimately show ?thesis
    using v d by (simp add: defaultValue_OLMapContext)
qed

theorem shared_run_writes_target_only_witness:
  "run (component Shared) [Mount 1 7, Rerender 1, Unmount 1, Mount 2 9] (boot Shared) \<noteq> None \<and>
   [\<lparr>target = Some 9, layers = [TileLayer OSM],
      view = \<lparr>center = (0, 0), zoom = 2\<rparr>, disposed = False\<rparr>] =
     [(heap (ol (boot Shared)) ! defaultValue OLMapContext)\<lparr>target := Some 9\<rparr>] \<and>
   filter is_teardown
     [NewMap 0 None, Rendered 1, Committed 1 7, SetTarget 0 (Some 7), Rendered 1,
      Removed 1 7, SetTarget 0 None, Rendered 2, Committed 2 9, SetTarget 0 (Some 9)] = []"
proof -
  have r: "run (component Shared) [Mount 1 7, Rerender 1, Unmount 1, Mount 2 9] (boot Shared) =
    Some \<lparr>ol = \<lparr>heap = [\<lparr>target = Some 9, layers = [TileLayer OSM],
                          view = \<lparr>center = (0, 0), zoom = 2\<rparr>, disposed = False\<rparr>],
                log = [NewMap 0 None, Rendered 1, Committed 1 7, SetTarget 0 (Some 7),
                       Rendered 1, Removed 1 7, SetTarget 0 None, Rendered 2, Committed 2 9,
                       SetTarget 0 (Some 9)]\<rparr>,
          fibers = [2 \<mapsto> \<lparr>ref_current = Some 9, destroy = setTarget 0 None,
                           hook_deps = Some [], node = 9\<rparr>]\<rparr>"
    by (simp add: eval_defs fun_eq_iff)
  from shared_run_writes_target_only [OF r] r show ?thesis
    by (simp add: defaultValue_OLMapContext)
qed


section \<open>The handle passed on a mount\<close>

text \<open>
  C9. The effect of the shared component passes on whatever the ref holds: a node when
  the ref holds one, and an absent target when it holds none, for there is no guard.
  In every reachable state the mount of an instance fills the ref at the commit, before
  the effect runs, so the call the effect makes names the committed node.
\<close>

theorem shared_attach_handle_not_null:
  assumes "run (component Shared) evs (boot Shared) = Some s"
    and "step (component Shared) (Mount i e) s = Some s'"
  shows "log (ol s') = log (ol s) @
           [Rendered i, Committed i e, SetTarget (defaultValue OLMapContext) (Some e)] \<and>
         map_option ref_current (fibers s' i) = Some (Some e) \<and>
         snd (effect_fn (component Shared) (Some e) w) =
           setTarget (defaultValue OLMapContext) (Some e) w \<and>
         snd (effect_fn (component Shared) None w) =
           setTarget (defaultValue OLMapContext) None w"
proof -
  from assms(1) have reach: "tidy Shared s"
    by (rule reachable_tidy)
  have "run (component Shared) [] s' = Some s'"
    by simp
  from mount_then_unmount(3) [OF reach assms(2) this]
  have "log (ol s') = log (ol s) @
           [Rendered i, Committed i e, SetTarget (defaultValue OLMapContext) (Some e)]"
    by (simp add: defaultValue_OLMapContext)
  moreover from step_MountD(2) [OF assms(2)]
  have "map_option ref_current (fibers s' i) = Some (Some e)"
    by simp
  ultimately show ?thesis
    by (simp add: component_Shared defaultValue_OLMapContext)
qed

theorem shared_attach_handle_not_null_witness:
  "step (component Shared) (Mount 1 7) (boot Shared) =
     Some \<lparr>ol = \<lparr>heap = [\<lparr>target = Some 7, layers = [TileLayer OSM],
                        view = \<lparr>center = (0, 0), zoom = 2\<rparr>, disposed = False\<rparr>],
              log = [NewMap 0 None, Rendered 1, Committed 1 7, SetTarget 0 (Some 7)]\<rparr>,
        fibers = [1 \<mapsto> \<lparr>ref_current = Some 7, destroy = setTarget 0 None,
                         hook_deps = Some [], node = 7\<rparr>]\<rparr> \<and>
   snd (effect_fn (component Shared) (Some 7) empty_world) =
     \<lparr>heap = [], log = [SetTarget (defaultValue OLMapContext) (Some 7)]\<rparr>"
proof -
  have a: "run (component Shared) [] (boot Shared) = Some (boot Shared)"
    by simp
  have b: "step (component Shared) (Mount 1 7) (boot Shared) =
     Some \<lparr>ol = \<lparr>heap = [\<lparr>target = Some 7, layers = [TileLayer OSM],
                        view = \<lparr>center = (0, 0), zoom = 2\<rparr>, disposed = False\<rparr>],
              log = [NewMap 0 None, Rendered 1, Committed 1 7, SetTarget 0 (Some 7)]\<rparr>,
        fibers = [1 \<mapsto> \<lparr>ref_current = Some 7, destroy = setTarget 0 None,
                         hook_deps = Some [], node = 7\<rparr>]\<rparr>"
    by (simp add: eval_defs fun_eq_iff)
  from shared_attach_handle_not_null [OF a b, of empty_world] b show ?thesis
    by (simp add: setTarget_def empty_world_def)
qed

section \<open>Mounting again elsewhere\<close>

text \<open>
  C7. A viewer has one target field, and \<open>setTarget\<close> overwrites it. In the shared mode,
  after any run that ends with a mount on a node \<open>A\<close>, the unmount of that instance and a
  mount on a node \<open>B\<close>, the viewer of the context is targeted at \<open>B\<close>, and so not at \<open>A\<close>
  when the two nodes differ; between the unmount and the second mount it has no target.
\<close>

theorem remount_targets_last_site:
  assumes "run (component Shared) (evs @ [Mount i A, Unmount i]) (boot Shared) = Some s"
    and "step (component Shared) (Mount j B) s = Some s'"
  shows "target (heap (ol s) ! defaultValue OLMapContext) = None \<and>
         target (heap (ol s') ! defaultValue OLMapContext) = Some B \<and>
         (A \<noteq> B \<longrightarrow> target (heap (ol s') ! defaultValue OLMapContext) \<noteq> Some A) \<and>
         length (heap (ol s')) = 1"
proof -
  from assms(1) obtain s0 s1 where s0: "run (component Shared) evs (boot Shared) = Some s0"
      and s1: "step (component Shared) (Mount i A) s0 = Some s1"
      and s: "step (component Shared) (Unmount i) s1 = Some s"
    by (auto simp: run_append split: option.splits)
  from s0 have t0: "tidy Shared s0"
    by (rule reachable_tidy)
  have "run (component Shared) [] s1 = Some s1"
    by simp
  from mount_then_unmount(1,4) [OF t0 s1 this] s
  have "s = \<lparr>ol = setTarget (viewer Shared s0) None (put (Removed i A) (ol s1)),
             fibers = (fibers s1)(i := None)\<rparr>" and "viewer Shared s0 < length (heap (ol s1))"
    by simp_all
  then have none: "target (heap (ol s) ! defaultValue OLMapContext) = None"
    by (simp add: target_setTarget viewer_def defaultValue_OLMapContext)
  from assms(1) have t: "tidy Shared s"
    by (rule reachable_tidy)
  have "run (component Shared) [] s' = Some s'"
    by simp
  from mount_then_unmount(2) [OF t assms(2) this]
  have some: "target (heap (ol s') ! defaultValue OLMapContext) = Some B"
    by (simp add: viewer_def defaultValue_OLMapContext)
  from t assms(2) have "tidy Shared s'"
    by (rule tidy_step)
  then have "length (heap (ol s')) = 1"
    by (simp add: tidy_def)
  with none some show ?thesis
    by simp
qed

theorem remount_targets_last_site_witness:
  "(7::nat) \<noteq> 9 \<and>
   step (component Shared) (Mount 2 9)
     \<lparr>ol = \<lparr>heap = [\<lparr>target = None, layers = [TileLayer OSM],
                      view = \<lparr>center = (0, 0), zoom = 2\<rparr>, disposed = False\<rparr>],
            log = [NewMap 0 None, Rendered 1, Committed 1 7, SetTarget 0 (Some 7),
                   Removed 1 7, SetTarget 0 None]\<rparr>,
      fibers = Map.empty\<rparr> =
     Some \<lparr>ol = \<lparr>heap = [\<lparr>target = Some 9, layers = [TileLayer OSM],
                            view = \<lparr>center = (0, 0), zoom = 2\<rparr>, disposed = False\<rparr>],
                 log = [NewMap 0 None, Rendered 1, Committed 1 7, SetTarget 0 (Some 7),
                        Removed 1 7, SetTarget 0 None, Rendered 2, Committed 2 9,
                        SetTarget 0 (Some 9)]\<rparr>,
           fibers = [2 \<mapsto> \<lparr>ref_current = Some 9, destroy = setTarget 0 None,
                            hook_deps = Some [], node = 9\<rparr>]\<rparr> \<and>
   target (\<lparr>target = Some 9, layers = [TileLayer OSM],
             view = \<lparr>center = (0, 0), zoom = 2\<rparr>, disposed = False\<rparr>) \<noteq> Some 7"
proof -
  let ?s = "\<lparr>ol = \<lparr>heap = [\<lparr>target = None, layers = [TileLayer OSM],
                      view = \<lparr>center = (0, 0), zoom = 2\<rparr>, disposed = False\<rparr>],
            log = [NewMap 0 None, Rendered 1, Committed 1 7, SetTarget 0 (Some 7),
                   Removed 1 7, SetTarget 0 None]\<rparr>,
      fibers = Map.empty\<rparr>"
  let ?s' = "\<lparr>ol = \<lparr>heap = [\<lparr>target = Some 9, layers = [TileLayer OSM],
                            view = \<lparr>center = (0, 0), zoom = 2\<rparr>, disposed = False\<rparr>],
                 log = [NewMap 0 None, Rendered 1, Committed 1 7, SetTarget 0 (Some 7),
                        Removed 1 7, SetTarget 0 None, Rendered 2, Committed 2 9,
                        SetTarget 0 (Some 9)]\<rparr>,
           fibers = [2 \<mapsto> \<lparr>ref_current = Some 9, destroy = setTarget 0 None,
                            hook_deps = Some [], node = 9\<rparr>]\<rparr>"
  have a: "run (component Shared) ([] @ [Mount 1 7, Unmount 1]) (boot Shared) = Some ?s"
    by (simp add: eval_defs fun_eq_iff)
  have b: "step (component Shared) (Mount 2 9) ?s = Some ?s'"
    by (simp add: eval_defs fun_eq_iff)
  from remount_targets_last_site [OF a b] b show ?thesis
    by simp
qed


section \<open>The component that owns its viewer\<close>

text \<open>
  C6, as the sources have it. The private component builds its viewer inside the effect,
  with the committed node as target. Its cleanup only clears the target: after a mount
  and its unmount the viewer is still in the store with its layers and view, it has not
  been disposed of, and the log holds no teardown.
\<close>

theorem private_unmount_keeps_viewer:
  "map_option ol (run (component Private) [Mount 0 7, Unmount 0] (boot Private)) =
     Some \<lparr>heap = [\<lparr>target = None, layers = [TileLayer OSM],
                     view = \<lparr>center = (0, 0), zoom = 2\<rparr>, disposed = False\<rparr>],
           log = [Rendered 0, Committed 0 7, NewMap 0 (Some 7), Removed 0 7,
                  SetTarget 0 None]\<rparr> \<and>
   map_option (list_ex is_teardown \<circ> log \<circ> ol)
     (run (component Private) [Mount 0 7, Unmount 0] (boot Private)) = Some False \<and>
   map_option (map disposed \<circ> heap \<circ> ol)
     (run (component Private) [Mount 0 7, Unmount 0] (boot Private)) = Some [False]"
  by (simp add: eval_defs)

text \<open>
  C6, amended. In the private mode the mount of an instance on a node \<open>e\<close> builds a new
  viewer inside the effect, after the commit, with \<open>e\<close> as its target and the fixed
  description. The first unmount of the instance makes one call, which clears the target
  of that viewer. The viewer stays in the store, with its layers and view and not
  disposed of, and no teardown is ever logged.
\<close>

theorem private_mount_builds_unmount_detaches:
  assumes "run (component Private) evs (boot Private) = Some s"
    and "step (component Private) (Mount i e) s = Some s1"
    and "run (component Private) evs' s1 = Some s2"
    and "Unmount i \<notin> set evs'"
  shows "\<exists>s3. log (ol s1) = log (ol s) @
                 [Rendered i, Committed i e, NewMap (length (heap (ol s))) (Some e)] \<and>
              heap (ol s1) = heap (ol s) @
                 [\<lparr>target = Some e, layers = [TileLayer OSM],
                   view = \<lparr>center = (0, 0), zoom = 2\<rparr>, disposed = False\<rparr>] \<and>
              step (component Private) (Unmount i) s2 = Some s3 \<and>
              log (ol s3) = log (ol s2) @
                 [Removed i e, SetTarget (length (heap (ol s))) None] \<and>
              length (heap (ol s3)) = length (heap (ol s2)) \<and>
              heap (ol s3) ! length (heap (ol s)) =
                 \<lparr>target = None, layers = [TileLayer OSM],
                  view = \<lparr>center = (0, 0), zoom = 2\<rparr>, disposed = False\<rparr> \<and>
              filter is_teardown (log (ol s3)) = []"
proof -
  let ?a = "length (heap (ol s))"
  let ?s3 = "\<lparr>ol = setTarget ?a None (put (Removed i e) (ol s2)),
              fibers = (fibers s2)(i := None)\<rparr>"
  from assms(1) have reach: "tidy Private s"
    by (rule reachable_tidy)
  note facts = mount_then_unmount [OF reach assms(2,3,4)]
  from facts(4) have un: "step (component Private) (Unmount i) s2 = Some ?s3"
    by (simp add: viewer_def)
  from step_MountD(2) [OF assms(2)]
  have h1: "heap (ol s1) = heap (ol s) @
                 [\<lparr>target = Some e, layers = [TileLayer OSM],
                   view = \<lparr>center = (0, 0), zoom = 2\<rparr>, disposed = False\<rparr>]"
    by (simp add: attach_def new_Map_def)
  from facts(5) h1 have lt: "?a < length (heap (ol s2))"
    and d: "layers (heap (ol s2) ! ?a) = [TileLayer OSM]"
      "view (heap (ol s2) ! ?a) = \<lparr>center = (0, 0), zoom = 2\<rparr>"
      "disposed (heap (ol s2) ! ?a) = False"
    by (simp_all add: keeps_def)
  have "(heap (ol s2) ! ?a)\<lparr>target := None\<rparr> =
      \<lparr>target = None, layers = layers (heap (ol s2) ! ?a), view = view (heap (ol s2) ! ?a),
       disposed = disposed (heap (ol s2) ! ?a)\<rparr>"
    by (cases "heap (ol s2) ! ?a") simp
  with lt d have obj: "heap (ol ?s3) ! ?a =
                 \<lparr>target = None, layers = [TileLayer OSM],
                  view = \<lparr>center = (0, 0), zoom = 2\<rparr>, disposed = False\<rparr>"
    by (simp add: setTarget_def)
  have "filter is_teardown (log (ol ?s3)) = []"
  proof -
    from assms(1,2,3) un
    have "run (component Private) (evs @ Mount i e # evs' @ [Unmount i]) (boot Private) = Some ?s3"
      by (simp add: run_append)
    from run_counts [OF tidy_boot this] show ?thesis
      by (simp add: boot_Private)
  qed
  moreover have "log (ol ?s3) = log (ol s2) @ [Removed i e, SetTarget ?a None]"
    by simp
  moreover have "length (heap (ol ?s3)) = length (heap (ol s2))"
    by simp
  moreover from facts(3) have "log (ol s1) = log (ol s) @
                 [Rendered i, Committed i e, NewMap (length (heap (ol s))) (Some e)]"
    by simp
  ultimately show ?thesis
    using h1 un obj by blast
qed

theorem private_mount_builds_unmount_detaches_witness:
  "\<exists>s3. step (component Private) (Unmount 1)
       \<lparr>ol = \<lparr>heap = [\<lparr>target = Some 7, layers = [TileLayer OSM],
                        view = \<lparr>center = (0, 0), zoom = 2\<rparr>, disposed = False\<rparr>],
              log = [Rendered 1, Committed 1 7, NewMap 0 (Some 7), Rendered 1]\<rparr>,
        fibers = [1 \<mapsto> \<lparr>ref_current = Some 7, destroy = setTarget 0 None,
                         hook_deps = Some [], node = 7\<rparr>]\<rparr> = Some s3 \<and>
     log (ol s3) = [Rendered 1, Committed 1 7, NewMap 0 (Some 7), Rendered 1,
                    Removed 1 7, SetTarget 0 None] \<and>
     heap (ol s3) ! 0 = \<lparr>target = None, layers = [TileLayer OSM],
                          view = \<lparr>center = (0, 0), zoom = 2\<rparr>, disposed = False\<rparr> \<and>
     filter is_teardown (log (ol s3)) = []"
proof -
  let ?s1 = "\<lparr>ol = \<lparr>heap = [\<lparr>target = Some 7, layers = [TileLayer OSM],
                        view = \<lparr>center = (0, 0), zoom = 2\<rparr>, disposed = False\<rparr>],
              log = [Rendered 1, Committed 1 7, NewMap 0 (Some 7)]\<rparr>,
        fibers = [1 \<mapsto> \<lparr>ref_current = Some 7, destroy = setTarget 0 None,
                         hook_deps = Some [], node = 7\<rparr>]\<rparr>"
  let ?s2 = "\<lparr>ol = \<lparr>heap = [\<lparr>target = Some 7, layers = [TileLayer OSM],
                        view = \<lparr>center = (0, 0), zoom = 2\<rparr>, disposed = False\<rparr>],
              log = [Rendered 1, Committed 1 7, NewMap 0 (Some 7), Rendered 1]\<rparr>,
        fibers = [1 \<mapsto> \<lparr>ref_current = Some 7, destroy = setTarget 0 None,
                         hook_deps = Some [], node = 7\<rparr>]\<rparr>"
  have a: "run (component Private) [] (boot Private) = Some (boot Private)"
    by simp
  have b: "step (component Private) (Mount 1 7) (boot Private) = Some ?s1"
    by (simp add: eval_defs fun_eq_iff)
  have c: "run (component Private) [Rerender 1] ?s1 = Some ?s2"
    by (simp add: eval_defs fun_eq_iff)
  have d: "Unmount 1 \<notin> set [Rerender 1]"
    by simp
  from private_mount_builds_unmount_detaches [OF a b c d] show ?thesis
    by (auto simp: boot_Private)
qed

end
